theory Spec2Isabelle
  imports Main "HOL-Library.AList"
begin

section \<open>JavaScript strings\<close>

text \<open>
  A JavaScript string is modelled as an Isabelle \<open>string\<close>; a \<open>char\<close> stands for a code
  unit in the range 0..255.  The code units that \<open>String.prototype.trim\<close> removes
  (ECMAScript WhiteSpace and LineTerminator) are, in this range, TAB, LF, VT, FF, CR, SPACE
  and NBSP.
\<close>

definition isWhiteSpace :: "char \<Rightarrow> bool" where
  "isWhiteSpace c = (of_char c \<in> {9, 10, 11, 12, 13, 32, 160 :: nat})"

definition trim :: "string \<Rightarrow> string" where
  "trim s = rev (dropWhile isWhiteSpace (rev (dropWhile isWhiteSpace s)))"

text \<open>Truthiness of a string value: only the empty string is falsy.\<close>

definition truthy :: "string \<Rightarrow> bool" where
  "truthy s = (s \<noteq> [])"

section \<open>Transcription reconciler (hook useConversationTranscription)\<close>

datatype Role = User | Assistant

text \<open>Interface ChatMessage: \<open>{id, role, text, isFinal, timestamp}\<close>.\<close>

record ChatMessage =
  msg_id :: string
  role :: Role
  msg_text :: string
  isFinal :: bool
  timestamp :: int

text \<open>
  The fields of a ReceivedTranscriptionSegment that the hook reads: \<open>id\<close>, \<open>text\<close>,
  \<open>final\<close>.
\<close>

record Segment =
  seg_id :: string
  seg_text :: string
  final :: bool

text \<open>
  The hook's own state: the React state \<open>messages\<close> (the finalized log) and the ref
  \<open>processedSegments\<close>, the set of keys already processed as final.
\<close>

record Reconciler =
  messages :: "ChatMessage list"
  processedSegments :: "string set"

definition initReconciler :: Reconciler where
  "initReconciler = \<lparr>messages = [], processedSegments = {}\<rparr>"

text \<open>\<open>clearMessages\<close>: \<open>setMessages([])\<close> and \<open>processedSegments.current.clear()\<close>.\<close>

definition clearMessages :: "Reconciler \<Rightarrow> Reconciler" where
  "clearMessages st = st\<lparr>messages := [], processedSegments := {}\<rparr>"

text \<open>
  The body of the \<open>forEach\<close> callback of the user effect, for one segment.  \<open>now\<close> is
  the value \<open>Date.now()\<close> returns when the message is built.
\<close>

definition processUserSegment :: "int \<Rightarrow> Segment \<Rightarrow> Reconciler \<Rightarrow> Reconciler" where
  "processUserSegment now seg st =
     (let segId = seg_id seg in
      if final seg \<and> (''user-'' @ segId) \<notin> processedSegments st then
        (let st1 = st\<lparr>processedSegments := insert (''user-'' @ segId) (processedSegments st)\<rparr> in
         if truthy (trim (seg_text seg)) then
           st1\<lparr>messages :=
             filter (\<lambda>m. msg_id m \<noteq> ''user-'' @ segId) (messages st1) @
               [\<lparr>msg_id = ''user-'' @ segId, role = User, msg_text = seg_text seg,
                 isFinal = True, timestamp = now\<rparr>]\<rparr>
         else st1)
      else st)"

text \<open>The same for the agent effect.\<close>

definition processAgentSegment :: "int \<Rightarrow> Segment \<Rightarrow> Reconciler \<Rightarrow> Reconciler" where
  "processAgentSegment now seg st =
     (let segId = seg_id seg in
      if final seg \<and> (''agent-'' @ segId) \<notin> processedSegments st then
        (let st1 = st\<lparr>processedSegments := insert (''agent-'' @ segId) (processedSegments st)\<rparr> in
         if truthy (trim (seg_text seg)) then
           st1\<lparr>messages :=
             filter (\<lambda>m. msg_id m \<noteq> ''agent-'' @ segId) (messages st1) @
               [\<lparr>msg_id = ''agent-'' @ segId, role = Assistant, msg_text = seg_text seg,
                 isFinal = True, timestamp = now\<rparr>]\<rparr>
         else st1)
      else st)"

text \<open>
  The two effects.  The transcription array is \<open>None\<close> when it is undefined; \<open>clock i\<close>
  is the reading of \<open>Date.now()\<close> while the element at index \<open>i\<close> is processed.
\<close>

definition userEffect :: "(nat \<Rightarrow> int) \<Rightarrow> Segment list option \<Rightarrow> Reconciler \<Rightarrow> Reconciler" where
  "userEffect clock userTranscriptions st =
     (case userTranscriptions of
        None \<Rightarrow> st
      | Some segs \<Rightarrow>
          if length segs = 0 then st
          else fold (\<lambda>(i, seg). processUserSegment (clock i) seg) (enumerate 0 segs) st)"

definition agentEffect :: "(nat \<Rightarrow> int) \<Rightarrow> Segment list option \<Rightarrow> Reconciler \<Rightarrow> Reconciler" where
  "agentEffect clock agentTranscriptions st =
     (case agentTranscriptions of
        None \<Rightarrow> st
      | Some segs \<Rightarrow>
          if length segs = 0 then st
          else fold (\<lambda>(i, seg). processAgentSegment (clock i) seg) (enumerate 0 segs) st)"

text \<open>
  \<open>currentUserInterim\<close> and \<open>currentAgentInterim\<close>: the text of the last element of the
  array when it is not final and not blank, otherwise null.
\<close>

definition currentUserInterim :: "Segment list option \<Rightarrow> string option" where
  "currentUserInterim userTranscriptions =
     (case userTranscriptions of
        None \<Rightarrow> None
      | Some segs \<Rightarrow>
          if length segs = 0 then None
          else (let latest = segs ! (length segs - 1) in
                if \<not> final latest \<and> truthy (trim (seg_text latest)) then Some (seg_text latest)
                else None))"

definition currentAgentInterim :: "Segment list option \<Rightarrow> string option" where
  "currentAgentInterim agentTranscriptions =
     (case agentTranscriptions of
        None \<Rightarrow> None
      | Some segs \<Rightarrow>
          if length segs = 0 then None
          else (let latest = segs ! (length segs - 1) in
                if \<not> final latest \<and> truthy (trim (seg_text latest)) then Some (seg_text latest)
                else None))"

text \<open>Truthiness of a \<open>string | null\<close> value.\<close>

fun truthyOpt :: "string option \<Rightarrow> bool" where
  "truthyOpt None = False"
| "truthyOpt (Some s) = truthy s"

text \<open>
  \<open>allMessages\<close>: the finalized log, then the user interim entry, then the agent interim
  entry, sorted by timestamp.  \<open>Array.prototype.sort\<close> is stable, and so is \<open>sort_key\<close>.
  \<open>nowU\<close> and \<open>nowA\<close> are the two readings of \<open>Date.now()\<close>.
\<close>

definition allMessages ::
  "ChatMessage list \<Rightarrow> string option \<Rightarrow> string option \<Rightarrow> int \<Rightarrow> int \<Rightarrow> ChatMessage list" where
  "allMessages msgs userInterim agentInterim nowU nowA =
     (let result = msgs;
          result = (if truthyOpt userInterim
                    then result @ [\<lparr>msg_id = ''user-interim'', role = User,
                                    msg_text = the userInterim, isFinal = False,
                                    timestamp = nowU\<rparr>]
                    else result);
          result = (if truthyOpt agentInterim
                    then result @ [\<lparr>msg_id = ''agent-interim'', role = Assistant,
                                    msg_text = the agentInterim, isFinal = False,
                                    timestamp = nowA\<rparr>]
                    else result)
      in sort_key timestamp result)"

text \<open>
  What one render of the hook returns as \<open>messages\<close>, from the finalized log and the two
  transcription arrays of that render.
\<close>

definition renderedMessages ::
  "Reconciler \<Rightarrow> Segment list option \<Rightarrow> Segment list option \<Rightarrow> int \<Rightarrow> int \<Rightarrow> ChatMessage list" where
  "renderedMessages st userTranscriptions agentTranscriptions nowU nowA =
     allMessages (messages st) (currentUserInterim userTranscriptions)
       (currentAgentInterim agentTranscriptions) nowU nowA"

text \<open>
  What can happen to the hook between renders: the user array changes (the user effect
  runs on the new array), the agent array changes, or the caller invokes
  \<open>clearMessages\<close>.
\<close>

datatype Event =
    UserTranscriptions "nat \<Rightarrow> int" "Segment list option"
  | AgentTranscriptions "nat \<Rightarrow> int" "Segment list option"
  | ClearMessages

fun step :: "Event \<Rightarrow> Reconciler \<Rightarrow> Reconciler" where
  "step (UserTranscriptions clock segs) st = userEffect clock segs st"
| "step (AgentTranscriptions clock segs) st = agentEffect clock segs st"
| "step ClearMessages st = clearMessages st"

definition run :: "Event list \<Rightarrow> Reconciler \<Rightarrow> Reconciler" where
  "run evs st = fold step evs st"


section \<open>Attribute propagation in the room handler (component RoomHandler)\<close>

text \<open>The connection states of a room (enum ConnectionState of the transport client).\<close>

datatype ConnectionState = Disconnected | Connecting | Connected | Reconnecting | SignalReconnecting






section \<open>Token request and usage limit (component App, function toggleMic)\<close>

datatype AssistantState = IDLE | LISTENING | PROCESSING | SPEAKING

text \<open>
  The React state of App that \<open>toggleMic\<close> and \<open>handleUsageIncrement\<close> read or write.
  A \<open>string | null\<close> value is a \<open>string option\<close>.
\<close>

record App =
  state_App :: AssistantState
  isMicActive :: bool
  isLimitReached :: bool
  liveKitToken :: "string option"
  liveKitUrl :: "string option"
  isConnecting_App :: bool

text \<open>
  The JSON body of the token endpoint's response, as far as the code reads it; an absent
  field is \<open>None\<close>.  \<open>Threw\<close> stands for \<open>fetch\<close> or \<open>response.json()\<close> throwing, with
  the message of the exception.
\<close>

record TokenData =
  data_error :: "string option"
  data_url :: "string option"
  data_token :: "string option"
  data_room :: "string option"

datatype FetchResult = Threw string | Json TokenData

text \<open>
  \<open>toggleMic\<close> up to its \<open>await fetch\<close>: the new state, and whether a token request was
  issued.
\<close>

definition toggleMic_begin :: "App \<Rightarrow> App \<times> bool" where
  "toggleMic_begin a =
     (if isLimitReached a then (a, False)
      else if truthyOpt (liveKitToken a) then
        (a\<lparr>liveKitToken := None, liveKitUrl := None, isMicActive := False, state_App := IDLE\<rparr>,
         False)
      else (a\<lparr>isConnecting_App := True\<rparr>, True))"

text \<open>
  The continuation of \<open>toggleMic\<close> after the response: the \<open>limit_reached\<close> return, the
  throw on any other truthy error (caught and logged), the success path; the
  \<open>finally\<close> block runs on each of them.
\<close>

definition toggleMic_resume :: "FetchResult \<Rightarrow> App \<Rightarrow> App" where
  "toggleMic_resume res a =
     (case res of
        Threw msg \<Rightarrow> a\<lparr>isConnecting_App := False\<rparr>
      | Json d \<Rightarrow>
          if data_error d = Some ''limit_reached'' then
            a\<lparr>isLimitReached := True, isConnecting_App := False\<rparr>
          else if truthyOpt (data_error d) then a\<lparr>isConnecting_App := False\<rparr>
          else a\<lparr>liveKitUrl := data_url d, liveKitToken := data_token d, isMicActive := True,
                 state_App := LISTENING, isConnecting_App := False\<rparr>)"

text \<open>One whole invocation of \<open>toggleMic\<close>, given what the token endpoint answers.\<close>

definition toggleMic :: "FetchResult \<Rightarrow> App \<Rightarrow> App" where
  "toggleMic res a =
     (case toggleMic_begin a of (a', issued) \<Rightarrow> if issued then toggleMic_resume res a' else a')"

text \<open>
  \<open>isLiveKitConnected\<close> is \<open>liveKitToken && liveKitUrl\<close>; the LiveKitRoom element, that is
  the room session, exists in a render iff \<open>isLiveKitConnected && !isLimitReached\<close>.
\<close>

definition isLiveKitConnected :: "App \<Rightarrow> bool" where
  "isLiveKitConnected a = (truthyOpt (liveKitToken a) \<and> truthyOpt (liveKitUrl a))"

definition roomSessionRendered :: "App \<Rightarrow> bool" where
  "roomSessionRendered a = (isLiveKitConnected a \<and> \<not> isLimitReached a)"

text \<open>
  \<open>handleUsageIncrement\<close>, given the answer of the increment endpoint: \<open>None\<close> when the
  request throws, otherwise the truthiness of \<open>data.limited\<close>.
\<close>

definition handleUsageIncrement :: "bool option \<Rightarrow> App \<Rightarrow> App" where
  "handleUsageIncrement res a =
     (case res of
        None \<Rightarrow> a
      | Some limited \<Rightarrow>
          if limited then a\<lparr>isLimitReached := True, liveKitToken := None, liveKitUrl := None\<rparr>
          else a)"

section \<open>Session manager (hook useLiveKitRoom)\<close>

text \<open>
  Room objects are numbered in the order in which \<open>connect\<close> constructs them.  The React
  state of the hook is \<open>room\<close> and \<open>state\<close>.
\<close>

type_synonym RoomId = nat

record LiveKitState =
  isConnected :: bool
  isConnecting :: bool
  isMicEnabled :: bool
  error :: "string option"
  roomName :: "string option"

text \<open>
  \<open>connect\<close> is asynchronous: an invocation waits for the token response, then for
  \<open>newRoom.connect\<close> (it then holds its Room object and \<open>data.room\<close>), then for
  \<open>setMicrophoneEnabled\<close>.
\<close>

datatype ConnectPhase = AwaitFetch | AwaitConnect RoomId "string option" | AwaitMic RoomId

text \<open>
  Beside the React state: the invocations of \<open>connect\<close> in flight, each with its
  invocation number and its phase; the number of Room objects constructed; the rooms
  whose transport session is connected (\<open>live\<close>); the calls to \<open>setAttributes\<close> (room
  and argument), oldest first; the lines written with \<open>console.log\<close> by \<open>setTtsVoice\<close>
  when it skips.  The hook's \<open>toggleMic\<close>, which only switches the microphone of the
  stored room, and the unmount of the component are left out.
\<close>

record LiveKitHook =
  room :: "RoomId option"
  state :: LiveKitState
  pending :: "(nat \<times> ConnectPhase) list"
  nextCall :: nat
  created :: nat
  live :: "RoomId set"
  setAttributesCalls_hook :: "(RoomId \<times> (string \<times> string) list) list"
  consoleLog :: "string list"

definition initLiveKitHook :: LiveKitHook where
  "initLiveKitHook =
     \<lparr>room = None,
      state = \<lparr>isConnected = False, isConnecting = False, isMicEnabled = False,
               error = None, roomName = None\<rparr>,
      pending = [], nextCall = 0, created = 0, live = {},
      setAttributesCalls_hook = [], consoleLog = []\<rparr>"

text \<open>
  \<open>setRoom\<close>, with the effect on \<open>[room]\<close> whose cleanup disconnects the room it was
  installed for: the render that follows the state change is taken to be committed before
  the next callback runs, so a room that is replaced is disconnected here.
\<close>

definition setRoom :: "RoomId option \<Rightarrow> LiveKitHook \<Rightarrow> LiveKitHook" where
  "setRoom new h =
     (case room h of
        None \<Rightarrow> h\<lparr>room := new\<rparr>
      | Some old \<Rightarrow>
          if new = Some old then h
          else h\<lparr>room := new, live := live h - {old}\<rparr>)"

text \<open>The \<open>catch\<close> block of \<open>connect\<close>, ending invocation \<open>k\<close>.\<close>

definition connectFailed :: "nat \<Rightarrow> string \<Rightarrow> LiveKitHook \<Rightarrow> LiveKitHook" where
  "connectFailed k msg h =
     h\<lparr>state := (state h)\<lparr>isConnecting := False, error := Some msg\<rparr>,
       pending := AList.delete k (pending h)\<rparr>"

text \<open>
  The callbacks that run on the event loop, each one atomic:
  \<^item> \<open>CallConnect\<close>: the caller invokes \<open>connect()\<close>, which runs up to \<open>await fetch\<close>;
  \<^item> \<open>FetchDone k res\<close>: invocation \<open>k\<close> resumes with the token response, constructs its
    Room, registers the handlers and starts \<open>newRoom.connect\<close>;
  \<^item> \<open>TransportConnected k\<close>: the room of invocation \<open>k\<close> emits \<open>RoomEvent.Connected\<close>;
  \<^item> \<open>ConnectDone k res\<close>: \<open>await newRoom.connect(...)\<close> of invocation \<open>k\<close> resolves
    (\<open>None\<close>) or rejects with a message;
  \<^item> \<open>MicDone k res\<close>: \<open>await setMicrophoneEnabled(true)\<close> resolves or rejects;
  \<^item> \<open>RoomDisconnected r\<close>: room \<open>r\<close> emits \<open>RoomEvent.Disconnected\<close>;
  \<^item> \<open>CallDisconnect\<close>: the caller invokes \<open>disconnect()\<close>;
  \<^item> \<open>CallSetTtsVoice v\<close>: the caller invokes \<open>setTtsVoice(v)\<close>.
\<close>

datatype HookEvent =
    CallConnect
  | FetchDone nat FetchResult
  | TransportConnected nat
  | ConnectDone nat "string option"
  | MicDone nat "string option"
  | RoomDisconnected RoomId
  | CallDisconnect
  | CallSetTtsVoice string

fun hookStep :: "HookEvent \<Rightarrow> LiveKitHook \<Rightarrow> LiveKitHook" where
  "hookStep CallConnect h =
     h\<lparr>state := (state h)\<lparr>isConnecting := True, error := None\<rparr>,
       pending := pending h @ [(nextCall h, AwaitFetch)],
       nextCall := Suc (nextCall h)\<rparr>"
| "hookStep (FetchDone k res) h =
     (case map_of (pending h) k of
        Some AwaitFetch \<Rightarrow>
          (case res of
             Threw msg \<Rightarrow> connectFailed k msg h
           | Json d \<Rightarrow>
               if truthyOpt (data_error d) then connectFailed k (the (data_error d)) h
               else h\<lparr>created := Suc (created h),
                      pending := AList.update k (AwaitConnect (created h) (data_room d)) (pending h)\<rparr>)
      | _ \<Rightarrow> h)"
| "hookStep (TransportConnected k) h =
     (case map_of (pending h) k of
        Some (AwaitConnect r rn) \<Rightarrow>
          h\<lparr>live := insert r (live h),
            state := (state h)\<lparr>isConnected := True, isConnecting := False, roomName := rn\<rparr>\<rparr>
      | _ \<Rightarrow> h)"
| "hookStep (ConnectDone k res) h =
     (case map_of (pending h) k of
        Some (AwaitConnect r rn) \<Rightarrow>
          (case res of
             Some msg \<Rightarrow> connectFailed k msg h
           | None \<Rightarrow> (setRoom (Some r) h)\<lparr>pending := AList.update k (AwaitMic r) (pending h)\<rparr>)
      | _ \<Rightarrow> h)"
| "hookStep (MicDone k res) h =
     (case map_of (pending h) k of
        Some (AwaitMic r) \<Rightarrow>
          (case res of
             Some msg \<Rightarrow> connectFailed k msg h
           | None \<Rightarrow> h\<lparr>state := (state h)\<lparr>isMicEnabled := True\<rparr>,
                       pending := AList.delete k (pending h)\<rparr>)
      | _ \<Rightarrow> h)"
| "hookStep (RoomDisconnected r) h =
     (if r < created h then
        h\<lparr>live := live h - {r},
          state := (state h)\<lparr>isConnected := False, isMicEnabled := False, roomName := None\<rparr>\<rparr>
      else h)"
| "hookStep CallDisconnect h =
     (let h1 = (case room h of
                  None \<Rightarrow> h
                | Some r \<Rightarrow> setRoom None (h\<lparr>live := live h - {r}\<rparr>))
      in h1\<lparr>state := \<lparr>isConnected = False, isConnecting = False, isMicEnabled = False,
                        error = None, roomName = None\<rparr>\<rparr>)"
| "hookStep (CallSetTtsVoice voice) h =
     (case room h of
        None \<Rightarrow> h\<lparr>consoleLog := consoleLog h @ [''[LiveKit] Cannot set TTS voice - not connected'']\<rparr>
      | Some r \<Rightarrow>
          h\<lparr>setAttributesCalls_hook := setAttributesCalls_hook h @ [(r, [(''tts_voice'', voice)])]\<rparr>)"

definition runHook :: "HookEvent list \<Rightarrow> LiveKitHook \<Rightarrow> LiveKitHook" where
  "runHook evs h = fold hookStep evs h"

text \<open>
  A use of the hook in which the caller invokes \<open>connect()\<close> only while no invocation is
  in flight and no session is live.
\<close>

fun connectOnlyWhenIdle :: "HookEvent list \<Rightarrow> LiveKitHook \<Rightarrow> bool" where
  "connectOnlyWhenIdle [] h = True"
| "connectOnlyWhenIdle (ev # evs) h =
     ((if ev = CallConnect then pending h = [] \<and> live h = {} else True) \<and>
      connectOnlyWhenIdle evs (hookStep ev h))"

text \<open>
  The rooms an invocation of \<open>connect\<close> may have made live in a given phase, and the
  invariant of a hook used in that way: at most one invocation in flight, and no live
  room beside the one it holds.
\<close>

fun phaseRooms :: "ConnectPhase \<Rightarrow> RoomId set" where
  "phaseRooms AwaitFetch = {}"
| "phaseRooms (AwaitConnect r rn) = {r}"
| "phaseRooms (AwaitMic r) = {r}"

definition oneSession :: "LiveKitHook \<Rightarrow> bool" where
  "oneSession h =
     ((pending h = [] \<and> (\<exists>r. live h \<subseteq> {r})) \<or>
      (\<exists>k ph. pending h = [(k, ph)] \<and> live h \<subseteq> phaseRooms ph))"

section \<open>Audio capture (hook useAudioRecorder)\<close>

text \<open>
  Tracks, detectors and audio contexts are numbered; a captured MediaStream is the list of
  its tracks.
\<close>

type_synonym TrackId = nat
type_synonym MediaStream = "TrackId list"

text \<open>The calls the hook makes on browser and detector objects, in the order made.\<close>

datatype Call =
    GetUserMedia
  | MicVADNew
  | VadStart nat
  | VadPause nat
  | TrackStop TrackId
  | NewAudioContext
  | ContextClose nat

text \<open>
  The React state (\<open>isRecording\<close>, \<open>error\<close>, \<open>analyser\<close>, \<open>isSpeechDetected\<close>), the three
  refs, and the browser side: the tracks that are live (not stopped), the detectors that
  are listening, the audio contexts that are open, and the calls made so far.
\<close>

record Recorder =
  isRecording :: bool
  error_Recorder :: "string option"
  analyser :: "nat option"
  isSpeechDetected :: bool
  vadRef :: "nat option"
  streamRef :: "MediaStream option"
  audioContextRef :: "nat option"
  liveTracks :: "TrackId set"
  listening :: "nat set"
  openContexts :: "nat set"
  calls :: "Call list"

definition initRecorder :: Recorder where
  "initRecorder =
     \<lparr>isRecording = False, error_Recorder = None, analyser = None, isSpeechDetected = False,
      vadRef = None, streamRef = None, audioContextRef = None,
      liveTracks = {}, listening = {}, openContexts = {}, calls = []\<rparr>"

text \<open>
  What the environment answers during one \<open>startRecording\<close>: whether \<open>window.vad\<close> is
  set; \<open>getUserMedia\<close> rejecting with a message (\<open>Inl\<close>) or resolving with a stream;
  \<open>MicVAD.new\<close> rejecting or resolving with a detector; \<open>micVAD.start()\<close> throwing or not;
  the construction of the AudioContext throwing or giving a context; the construction of
  its source and analyser nodes throwing or not.
\<close>

record StartEnv =
  vadLoaded :: bool
  getUserMedia :: "string + MediaStream"
  micVADNew :: "string + nat"
  vadStart :: "string option"
  newAudioContext :: "string + nat"
  createAnalyser :: "string option"

definition startRecording :: "StartEnv \<Rightarrow> Recorder \<Rightarrow> Recorder" where
  "startRecording env r0 =
     (let r = r0\<lparr>error_Recorder := None\<rparr> in
      if \<not> vadLoaded env then
        r\<lparr>error_Recorder :=
            Some ''VAD library not loaded. Please check CDN script in index.html''\<rparr>
      else
        (let r = r\<lparr>calls := calls r @ [GetUserMedia]\<rparr> in
         case getUserMedia env of
           Inl msg \<Rightarrow> r\<lparr>error_Recorder := Some msg\<rparr>
         | Inr stream \<Rightarrow>
             (let r = r\<lparr>streamRef := Some stream, liveTracks := liveTracks r \<union> set stream\<rparr> in
              if stream = [] then
                r\<lparr>error_Recorder :=
                    Some ''Cannot read properties of undefined''\<rparr>
              else
                (let r = r\<lparr>calls := calls r @ [MicVADNew]\<rparr> in
                 case micVADNew env of
                   Inl msg \<Rightarrow> r\<lparr>error_Recorder := Some msg\<rparr>
                 | Inr vad \<Rightarrow>
                     (let r = r\<lparr>vadRef := Some vad, calls := calls r @ [VadStart vad]\<rparr> in
                      case vadStart env of
                        Some msg \<Rightarrow> r\<lparr>error_Recorder := Some msg\<rparr>
                      | None \<Rightarrow>
                          (let r = r\<lparr>listening := insert vad (listening r), isRecording := True,
                                     calls := calls r @ [NewAudioContext]\<rparr> in
                           case newAudioContext env of
                             Inl msg \<Rightarrow> r\<lparr>error_Recorder := Some msg\<rparr>
                           | Inr ctx \<Rightarrow>
                               (let r = r\<lparr>audioContextRef := Some ctx,
                                          openContexts := insert ctx (openContexts r)\<rparr> in
                                case createAnalyser env of
                                  Some msg \<Rightarrow> r\<lparr>error_Recorder := Some msg\<rparr>
                                | None \<Rightarrow> r\<lparr>analyser := Some ctx\<rparr>)))))))"

text \<open>
  What the environment answers during one \<open>stopRecording\<close>: \<open>vadRef.current.pause()\<close>
  throwing (with a message) or not, and the promise of \<open>close()\<close> rejecting or not.
  \<open>MediaStreamTrack.stop()\<close> has no failure.
\<close>

record StopEnv =
  pauseThrows :: "string option"
  closeRejects :: bool

text \<open>
  The four steps of \<open>stopRecording\<close>.  Only the first can throw: it returns the exception,
  if any, and the state it leaves.
\<close>

definition haltDetector :: "StopEnv \<Rightarrow> Recorder \<Rightarrow> string option \<times> Recorder" where
  "haltDetector env r =
     (case vadRef r of
        None \<Rightarrow> (None, r)
      | Some vad \<Rightarrow>
          (let r1 = r\<lparr>calls := calls r @ [VadPause vad]\<rparr> in
           case pauseThrows env of
             Some msg \<Rightarrow> (Some msg, r1)
           | None \<Rightarrow> (None, r1\<lparr>listening := listening r1 - {vad}, vadRef := None\<rparr>)))"

definition stopTracks :: "Recorder \<Rightarrow> Recorder" where
  "stopTracks r =
     (case streamRef r of
        None \<Rightarrow> r
      | Some stream \<Rightarrow>
          r\<lparr>calls := calls r @ map TrackStop stream,
            liveTracks := liveTracks r - set stream,
            streamRef := None\<rparr>)"

definition closeContext :: "StopEnv \<Rightarrow> Recorder \<Rightarrow> Recorder" where
  "closeContext env r =
     (case audioContextRef r of
        None \<Rightarrow> r
      | Some ctx \<Rightarrow>
          r\<lparr>calls := calls r @ [ContextClose ctx],
            openContexts := (if closeRejects env then openContexts r else openContexts r - {ctx}),
            audioContextRef := None\<rparr>)"

definition clearFlags :: "Recorder \<Rightarrow> Recorder" where
  "clearFlags r = r\<lparr>isRecording := False, isSpeechDetected := False, analyser := None\<rparr>"

text \<open>
  \<open>stopRecording\<close>: the state it leaves, and the exception that escapes it, if any.  There
  is no \<open>try\<close> in the function: when \<open>pause()\<close> throws, nothing after it runs.
\<close>

definition stopRecording :: "StopEnv \<Rightarrow> Recorder \<Rightarrow> string option \<times> Recorder" where
  "stopRecording env r =
     (case haltDetector env r of
        (Some msg, r1) \<Rightarrow> (Some msg, r1)
      | (None, r1) \<Rightarrow> (None, clearFlags (closeContext env (stopTracks r1))))"

section \<open>Scenarios\<close>

text \<open>
  A successful answer of the token endpoint, and the hook after one complete
  \<open>connect()\<close>: token received, Room 0 constructed and connected, stored in \<open>room\<close>,
  microphone enabled.
\<close>

definition tokenOk :: FetchResult where
  "tokenOk = Json \<lparr>data_error = None, data_url = Some ''wss://x'', data_token = Some ''t'',
                    data_room = Some ''voice-assistant''\<rparr>"

definition connectOnceEvents :: "HookEvent list" where
  "connectOnceEvents =
     [CallConnect, FetchDone 0 tokenOk, TransportConnected 0, ConnectDone 0 None, MicDone 0 None]"

definition connectedOnce :: LiveKitHook where
  "connectedOnce = runHook connectOnceEvents initLiveKitHook"

text \<open>
  An environment in which \<open>startRecording\<close> succeeds, with a stream of two tracks, and the
  recorder it leaves running.
\<close>

definition captureOk :: StartEnv where
  "captureOk = \<lparr>vadLoaded = True, getUserMedia = Inr [0, 1], micVADNew = Inr 0,
                 vadStart = None, newAudioContext = Inr 0, createAnalyser = None\<rparr>"

definition recording :: Recorder where
  "recording = startRecording captureOk initRecorder"

text \<open>
  An environment in which the microphone is granted (a stream with track 0) and the
  detector cannot be built: \<open>window.vad\<close> is set, \<open>MicVAD.new\<close> rejects.
\<close>

definition detectorUnavailable :: StartEnv where
  "detectorUnavailable =
     \<lparr>vadLoaded = True, getUserMedia = Inr [0], micVADNew = Inl ''Failed to load VAD model'',
      vadStart = None, newAudioContext = Inr 0, createAnalyser = None\<rparr>"


section \<open>Properties of the transcription reconciler\<close>

lemma fold_pairs_invariant:
  assumes "\<And>i x s. P s \<Longrightarrow> P (f i x s)" and "P s"
  shows "P (fold (\<lambda>(i, x). f i x) xs s)"
  using assms(2) by (induction xs arbitrary: s) (auto simp: assms(1))

lemma userEffect_invariant:
  assumes "\<And>now seg s. P s \<Longrightarrow> P (processUserSegment now seg s)" and "P st"
  shows "P (userEffect clock segs st)"
proof (cases segs)
  case None
  then show ?thesis using assms(2) by (simp add: userEffect_def)
next
  case (Some ss)
  have "P (fold (\<lambda>(i, seg). processUserSegment (clock i) seg) (enumerate 0 ss) st)"
    by (rule fold_pairs_invariant) (simp_all add: assms)
  then show ?thesis using Some assms(2) by (simp add: userEffect_def)
qed

lemma agentEffect_invariant:
  assumes "\<And>now seg s. P s \<Longrightarrow> P (processAgentSegment now seg s)" and "P st"
  shows "P (agentEffect clock segs st)"
proof (cases segs)
  case None
  then show ?thesis using assms(2) by (simp add: agentEffect_def)
next
  case (Some ss)
  have "P (fold (\<lambda>(i, seg). processAgentSegment (clock i) seg) (enumerate 0 ss) st)"
    by (rule fold_pairs_invariant) (simp_all add: assms)
  then show ?thesis using Some assms(2) by (simp add: agentEffect_def)
qed

lemma run_invariant:
  assumes "\<And>now seg s. P s \<Longrightarrow> P (processUserSegment now seg s)"
    and "\<And>now seg s. P s \<Longrightarrow> P (processAgentSegment now seg s)"
    and "\<And>s. P s \<Longrightarrow> P (clearMessages s)"
    and "P st"
  shows "P (run evs st)"
  using assms(4) unfolding run_def
proof (induction evs arbitrary: st)
  case Nil
  then show ?case by simp
next
  case (Cons ev evs)
  have "P (step ev st)"
    by (cases ev) (simp_all add: userEffect_invariant agentEffect_invariant assms(1-3) Cons.prems)
  then show ?case using Cons.IH by simp
qed

lemma processUserSegment_noop:
  "''user-'' @ seg_id seg \<in> processedSegments st \<Longrightarrow> processUserSegment now seg st = st"
  by (simp add: processUserSegment_def)

lemma processAgentSegment_noop:
  "''agent-'' @ seg_id seg \<in> processedSegments st \<Longrightarrow> processAgentSegment now seg st = st"
  by (simp add: processAgentSegment_def)

lemma processUserSegment_distinct:
  "distinct (map msg_id (messages st)) \<Longrightarrow>
   distinct (map msg_id (messages (processUserSegment now seg st)))"
  by (auto simp: processUserSegment_def Let_def distinct_map_filter)

lemma processAgentSegment_distinct:
  "distinct (map msg_id (messages st)) \<Longrightarrow>
   distinct (map msg_id (messages (processAgentSegment now seg st)))"
  by (auto simp: processAgentSegment_def Let_def distinct_map_filter)

lemma run_distinct:
  "distinct (map msg_id (messages st)) \<Longrightarrow> distinct (map msg_id (messages (run evs st)))"
  by (rule run_invariant [where P = "\<lambda>s. distinct (map msg_id (messages s))"])
     (simp_all add: processUserSegment_distinct processAgentSegment_distinct clearMessages_def)

lemma distinct_filter_le1:
  "distinct (map f xs) \<Longrightarrow> length (filter (\<lambda>x. f x = k) xs) \<le> 1"
proof (induction xs)
  case Nil
  then show ?case by simp
next
  case (Cons a xs)
  show ?case
  proof (cases "f a = k")
    case True
    have "f x \<noteq> k" if "x \<in> set xs" for x
      using that Cons.prems True by (metis distinct.simps(2) image_eqI list.simps(9) set_map)
    then have "filter (\<lambda>x. f x = k) xs = []"
      by (simp add: filter_empty_conv)
    with True show ?thesis by simp
  next
    case False
    with Cons show ?thesis by simp
  qed
qed

lemma run_all_final:
  "\<forall>m \<in> set (messages st). isFinal m \<Longrightarrow> \<forall>m \<in> set (messages (run evs st)). isFinal m"
  by (rule run_invariant [where P = "\<lambda>s. \<forall>m \<in> set (messages s). isFinal m"])
     (auto simp: processUserSegment_def processAgentSegment_def Let_def clearMessages_def)





lemma nonfinal_user_entries:
  assumes "\<forall>m \<in> set msgs. isFinal m"
  shows "filter (\<lambda>m. \<not> isFinal m \<and> role m = User) (allMessages msgs ui ai nowU nowA) =
         (if truthyOpt ui then [\<lparr>msg_id = ''user-interim'', role = User, msg_text = the ui,
                                  isFinal = False, timestamp = nowU\<rparr>] else [])"
proof -
  have "filter (\<lambda>m. \<not> isFinal m \<and> role m = User) msgs = []"
    using assms by (simp add: filter_empty_conv)
  then show ?thesis
    by (simp add: allMessages_def Let_def filter_sort)
qed

lemma nonfinal_agent_entries:
  assumes "\<forall>m \<in> set msgs. isFinal m"
  shows "filter (\<lambda>m. \<not> isFinal m \<and> role m = Assistant) (allMessages msgs ui ai nowU nowA) =
         (if truthyOpt ai then [\<lparr>msg_id = ''agent-interim'', role = Assistant, msg_text = the ai,
                                  isFinal = False, timestamp = nowA\<rparr>] else [])"
proof -
  have "filter (\<lambda>m. \<not> isFinal m \<and> role m = Assistant) msgs = []"
    using assms by (simp add: filter_empty_conv)
  then show ?thesis
    by (simp add: allMessages_def Let_def filter_sort)
qed


lemma processUserSegment_records:
  "final seg \<Longrightarrow> ''user-'' @ seg_id seg \<in> processedSegments (processUserSegment now seg st)"
  by (simp add: processUserSegment_def Let_def)

lemma processAgentSegment_records:
  "final seg \<Longrightarrow> ''agent-'' @ seg_id seg \<in> processedSegments (processAgentSegment now seg st)"
  by (simp add: processAgentSegment_def Let_def)

lemma processUserSegment_mono:
  "k \<in> processedSegments st \<Longrightarrow> k \<in> processedSegments (processUserSegment now seg st)"
  by (simp add: processUserSegment_def Let_def)

lemma processAgentSegment_mono:
  "k \<in> processedSegments st \<Longrightarrow> k \<in> processedSegments (processAgentSegment now seg st)"
  by (simp add: processAgentSegment_def Let_def)

lemma user_fold_records:
  "(i, seg) \<in> set xs \<Longrightarrow> final seg \<Longrightarrow>
   ''user-'' @ seg_id seg \<in>
     processedSegments (fold (\<lambda>(i, seg). processUserSegment (clock i) seg) xs st)"
proof (induction xs arbitrary: st)
  case Nil
  then show ?case by simp
next
  case (Cons x xs)
  show ?case
  proof (cases "x = (i, seg)")
    case True
    have "''user-'' @ seg_id seg \<in> processedSegments (processUserSegment (clock i) seg st)"
      using Cons.prems(2) by (rule processUserSegment_records)
    then have "''user-'' @ seg_id seg \<in> processedSegments
        (fold (\<lambda>(i, seg). processUserSegment (clock i) seg) xs
           (processUserSegment (clock i) seg st))"
      by (rule fold_pairs_invariant [where P = "\<lambda>s. ''user-'' @ seg_id seg \<in> processedSegments s",
            rotated]) (rule processUserSegment_mono)
    then show ?thesis using True by simp
  next
    case False
    then show ?thesis using Cons by simp
  qed
qed

lemma user_fold_noop:
  "\<forall>(i, seg) \<in> set xs. final seg \<longrightarrow> ''user-'' @ seg_id seg \<in> processedSegments st \<Longrightarrow>
   fold (\<lambda>(i, seg). processUserSegment (clock i) seg) xs st = st"
proof (induction xs)
  case Nil
  then show ?case by simp
next
  case (Cons x xs)
  obtain i seg where x: "x = (i, seg)" by (cases x)
  have "processUserSegment (clock i) seg st = st"
    using Cons.prems x by (cases "final seg") (simp_all add: processUserSegment_def)
  moreover have "fold (\<lambda>(i, seg). processUserSegment (clock i) seg) xs st = st"
    using Cons by simp
  ultimately show ?case using x by simp
qed

lemma userEffect_twice:
  "userEffect clock' segs (userEffect clock segs st) = userEffect clock segs st"
proof (cases segs)
  case None
  then show ?thesis by (simp add: userEffect_def)
next
  case (Some ss)
  let ?st' = "fold (\<lambda>(i, seg). processUserSegment (clock i) seg) (enumerate 0 ss) st"
  have "\<forall>(i, seg) \<in> set (enumerate 0 ss). final seg \<longrightarrow>
          ''user-'' @ seg_id seg \<in> processedSegments ?st'"
  proof (intro ballI, clarify)
    fix i seg
    assume "(i, seg) \<in> set (enumerate 0 ss)" and "final seg"
    then show "''user-'' @ seg_id seg \<in> processedSegments ?st'"
      by (rule user_fold_records)
  qed
  then have "fold (\<lambda>(i, seg). processUserSegment (clock' i) seg) (enumerate 0 ss) ?st' = ?st'"
    by (rule user_fold_noop)
  then show ?thesis using Some by (simp add: userEffect_def)
qed

lemma agent_fold_records:
  "(i, seg) \<in> set xs \<Longrightarrow> final seg \<Longrightarrow>
   ''agent-'' @ seg_id seg \<in>
     processedSegments (fold (\<lambda>(i, seg). processAgentSegment (clock i) seg) xs st)"
proof (induction xs arbitrary: st)
  case Nil
  then show ?case by simp
next
  case (Cons x xs)
  show ?case
  proof (cases "x = (i, seg)")
    case True
    have "''agent-'' @ seg_id seg \<in> processedSegments (processAgentSegment (clock i) seg st)"
      using Cons.prems(2) by (rule processAgentSegment_records)
    then have "''agent-'' @ seg_id seg \<in> processedSegments
        (fold (\<lambda>(i, seg). processAgentSegment (clock i) seg) xs
           (processAgentSegment (clock i) seg st))"
      by (rule fold_pairs_invariant [where P = "\<lambda>s. ''agent-'' @ seg_id seg \<in> processedSegments s",
            rotated]) (rule processAgentSegment_mono)
    then show ?thesis using True by simp
  next
    case False
    then show ?thesis using Cons by simp
  qed
qed

lemma agent_fold_noop:
  "\<forall>(i, seg) \<in> set xs. final seg \<longrightarrow> ''agent-'' @ seg_id seg \<in> processedSegments st \<Longrightarrow>
   fold (\<lambda>(i, seg). processAgentSegment (clock i) seg) xs st = st"
proof (induction xs)
  case Nil
  then show ?case by simp
next
  case (Cons x xs)
  obtain i seg where x: "x = (i, seg)" by (cases x)
  have "processAgentSegment (clock i) seg st = st"
    using Cons.prems x by (cases "final seg") (simp_all add: processAgentSegment_def)
  moreover have "fold (\<lambda>(i, seg). processAgentSegment (clock i) seg) xs st = st"
    using Cons by simp
  ultimately show ?case using x by simp
qed

lemma agentEffect_twice:
  "agentEffect clock' segs (agentEffect clock segs st) = agentEffect clock segs st"
proof (cases segs)
  case None
  then show ?thesis by (simp add: agentEffect_def)
next
  case (Some ss)
  let ?st' = "fold (\<lambda>(i, seg). processAgentSegment (clock i) seg) (enumerate 0 ss) st"
  have "\<forall>(i, seg) \<in> set (enumerate 0 ss). final seg \<longrightarrow>
          ''agent-'' @ seg_id seg \<in> processedSegments ?st'"
  proof (intro ballI, clarify)
    fix i seg
    assume "(i, seg) \<in> set (enumerate 0 ss)" and "final seg"
    then show "''agent-'' @ seg_id seg \<in> processedSegments ?st'"
      by (rule agent_fold_records)
  qed
  then have "fold (\<lambda>(i, seg). processAgentSegment (clock' i) seg) (enumerate 0 ss) ?st' = ?st'"
    by (rule agent_fold_noop)
  then show ?thesis using Some by (simp add: agentEffect_def)
qed


text \<open>
  Claim C1.  Whatever events reach the reconciler (arrays of user or agent segments,
  calls of \<open>clearMessages\<close>), the finalized log holds at most one message with a given id.
  A segment whose key is in \<open>processedSegments\<close>, that is, one already processed as
  final, leaves the state unchanged when it is delivered again; processing a final
  segment puts its key there; and running an effect a second time on the same array
  changes nothing.
\<close>

theorem finalization_idempotent:
  "length (filter (\<lambda>m. msg_id m = k) (messages (run evs initReconciler))) \<le> 1
   \<and> (''user-'' @ seg_id seg \<in> processedSegments st \<longrightarrow> processUserSegment now seg st = st)
   \<and> (''agent-'' @ seg_id seg \<in> processedSegments st \<longrightarrow> processAgentSegment now seg st = st)
   \<and> (final seg \<longrightarrow> ''user-'' @ seg_id seg \<in> processedSegments (processUserSegment now seg st))
   \<and> (final seg \<longrightarrow> ''agent-'' @ seg_id seg \<in> processedSegments (processAgentSegment now seg st))
   \<and> userEffect clock' segs (userEffect clock segs st) = userEffect clock segs st
   \<and> agentEffect clock' segs (agentEffect clock segs st) = agentEffect clock segs st"
proof -
  have "distinct (map msg_id (messages (run evs initReconciler)))"
    by (rule run_distinct) (simp add: initReconciler_def)
  then have "length (filter (\<lambda>m. msg_id m = k) (messages (run evs initReconciler))) \<le> 1"
    by (rule distinct_filter_le1)
  then show ?thesis
    using processUserSegment_noop processAgentSegment_noop processUserSegment_records
      processAgentSegment_records userEffect_twice agentEffect_twice
    by blast
qed

theorem finalization_idempotent_witness:
  "length (filter (\<lambda>m. msg_id m = ''user-A'')
      (messages (run [UserTranscriptions (\<lambda>i. 100)
                        (Some [\<lparr>seg_id = ''A'', seg_text = ''hi'', final = True\<rparr>,
                               \<lparr>seg_id = ''A'', seg_text = ''hi'', final = True\<rparr>])]
                   initReconciler))) \<le> 1
   \<and> processUserSegment 7 \<lparr>seg_id = ''A'', seg_text = ''hi'', final = True\<rparr>
        \<lparr>messages = [], processedSegments = {''user-A'', ''agent-A''}\<rparr>
       = \<lparr>messages = [], processedSegments = {''user-A'', ''agent-A''}\<rparr>
   \<and> processAgentSegment 7 \<lparr>seg_id = ''A'', seg_text = ''hi'', final = True\<rparr>
        \<lparr>messages = [], processedSegments = {''user-A'', ''agent-A''}\<rparr>
       = \<lparr>messages = [], processedSegments = {''user-A'', ''agent-A''}\<rparr>"
  using finalization_idempotent [of "''user-A''"
      "[UserTranscriptions (\<lambda>i. 100)
                        (Some [\<lparr>seg_id = ''A'', seg_text = ''hi'', final = True\<rparr>,
                               \<lparr>seg_id = ''A'', seg_text = ''hi'', final = True\<rparr>])]"
      "\<lparr>seg_id = ''A'', seg_text = ''hi'', final = True\<rparr>"
      "\<lparr>messages = [], processedSegments = {''user-A'', ''agent-A''}\<rparr>" 7]
  by simp

lemma processUserSegment_nonfinal: "\<not> final seg \<Longrightarrow> processUserSegment now seg st = st"
  by (simp add: processUserSegment_def)

lemma processAgentSegment_nonfinal: "\<not> final seg \<Longrightarrow> processAgentSegment now seg st = st"
  by (simp add: processAgentSegment_def)

lemma userEffect_nonfinal:
  "list_all (\<lambda>s. \<not> final s) segs \<Longrightarrow> userEffect clock (Some segs) st = st"
proof -
  assume nf: "list_all (\<lambda>s. \<not> final s) segs"
  have "\<forall>(i, seg) \<in> set (enumerate 0 segs).
          final seg \<longrightarrow> ''user-'' @ seg_id seg \<in> processedSegments st"
  proof (intro ballI, clarify)
    fix i seg
    assume "(i, seg) \<in> set (enumerate 0 segs)" and f: "final seg"
    then have "seg \<in> set segs" by (auto simp: in_set_enumerate_eq)
    with nf f show "''user-'' @ seg_id seg \<in> processedSegments st"
      by (simp add: list_all_iff)
  qed
  then have "fold (\<lambda>(i, seg). processUserSegment (clock i) seg) (enumerate 0 segs) st = st"
    by (rule user_fold_noop)
  then show ?thesis by (simp add: userEffect_def)
qed

lemma agentEffect_nonfinal:
  "list_all (\<lambda>s. \<not> final s) segs \<Longrightarrow> agentEffect clock (Some segs) st = st"
proof -
  assume nf: "list_all (\<lambda>s. \<not> final s) segs"
  have "\<forall>(i, seg) \<in> set (enumerate 0 segs).
          final seg \<longrightarrow> ''agent-'' @ seg_id seg \<in> processedSegments st"
  proof (intro ballI, clarify)
    fix i seg
    assume "(i, seg) \<in> set (enumerate 0 segs)" and f: "final seg"
    then have "seg \<in> set segs" by (auto simp: in_set_enumerate_eq)
    with nf f show "''agent-'' @ seg_id seg \<in> processedSegments st"
      by (simp add: list_all_iff)
  qed
  then have "fold (\<lambda>(i, seg). processAgentSegment (clock i) seg) (enumerate 0 segs) st = st"
    by (rule agent_fold_noop)
  then show ?thesis by (simp add: agentEffect_def)
qed

lemma interim_only_transcript:
  "renderedMessages initReconciler
      (Some (mid @ [\<lparr>seg_id = A, seg_text = ''foobar'', final = False\<rparr>])) None nowU nowA
     = [\<lparr>msg_id = ''user-interim'', role = User, msg_text = ''foobar'', isFinal = False,
          timestamp = nowU\<rparr>]"
  by (simp add: renderedMessages_def allMessages_def currentUserInterim_def
        currentAgentInterim_def initReconciler_def trim_def truthy_def isWhiteSpace_def)

text \<open>
  Claim C7.  A non-final segment never changes the reconciler: it is not appended to the
  log, on either stream, and an effect run on an array of non-final segments leaves the
  state as it was.  After the non-final segment (A, "foo") the array of a stream ends with
  it and the interim text is "foo"; after the non-final segment (A, "foobar"), whatever
  precedes it in the array (\<open>mid\<close> may or may not still hold the "foo" entry), the interim
  text is exactly "foobar".  Delivered to a fresh reconciler, the two events leave the
  log empty and the whole transcript is the single synthetic entry with text "foobar",
  whether the array keeps the "foo" entry or replaces it.  In the transcript of any render
  the non-final entries of the stream are that single entry, and each role has at most
  one non-final entry.
\<close>

theorem interim_replacement:
  "(\<not> final seg \<longrightarrow> processUserSegment now seg st = st)
   \<and> (\<not> final seg \<longrightarrow> processAgentSegment now seg st = st)
   \<and> (list_all (\<lambda>s. \<not> final s) segs \<longrightarrow>
        userEffect clock (Some segs) st = st \<and> agentEffect clock (Some segs) st = st)
   \<and> run [UserTranscriptions c1 (Some [\<lparr>seg_id = A, seg_text = ''foo'', final = False\<rparr>]),
           UserTranscriptions c2 (Some [\<lparr>seg_id = A, seg_text = ''foo'', final = False\<rparr>,
                                        \<lparr>seg_id = A, seg_text = ''foobar'', final = False\<rparr>])]
        initReconciler = initReconciler
   \<and> run [UserTranscriptions c1 (Some [\<lparr>seg_id = A, seg_text = ''foo'', final = False\<rparr>]),
           UserTranscriptions c2 (Some [\<lparr>seg_id = A, seg_text = ''foobar'', final = False\<rparr>])]
        initReconciler = initReconciler
   \<and> renderedMessages initReconciler
        (Some [\<lparr>seg_id = A, seg_text = ''foo'', final = False\<rparr>,
               \<lparr>seg_id = A, seg_text = ''foobar'', final = False\<rparr>]) None nowU nowA
       = [\<lparr>msg_id = ''user-interim'', role = User, msg_text = ''foobar'', isFinal = False,
            timestamp = nowU\<rparr>]
   \<and> renderedMessages initReconciler
        (Some [\<lparr>seg_id = A, seg_text = ''foobar'', final = False\<rparr>]) None nowU nowA
       = [\<lparr>msg_id = ''user-interim'', role = User, msg_text = ''foobar'', isFinal = False,
            timestamp = nowU\<rparr>]
   \<and> currentUserInterim (Some (pre @ [\<lparr>seg_id = A, seg_text = ''foo'', final = False\<rparr>])) = Some ''foo''
   \<and> currentUserInterim (Some (mid @ [\<lparr>seg_id = A, seg_text = ''foobar'', final = False\<rparr>]))
       = Some ''foobar''
   \<and> currentAgentInterim (Some (mid @ [\<lparr>seg_id = A, seg_text = ''foobar'', final = False\<rparr>]))
       = Some ''foobar''
   \<and> filter (\<lambda>m. \<not> isFinal m \<and> role m = User)
        (renderedMessages (run evs initReconciler)
           (Some (mid @ [\<lparr>seg_id = A, seg_text = ''foobar'', final = False\<rparr>])) agentArr nowU nowA)
       = [\<lparr>msg_id = ''user-interim'', role = User, msg_text = ''foobar'', isFinal = False,
            timestamp = nowU\<rparr>]
   \<and> filter (\<lambda>m. \<not> isFinal m \<and> role m = Assistant)
        (renderedMessages (run evs initReconciler) userArr
           (Some (mid @ [\<lparr>seg_id = A, seg_text = ''foobar'', final = False\<rparr>])) nowU nowA)
       = [\<lparr>msg_id = ''agent-interim'', role = Assistant, msg_text = ''foobar'', isFinal = False,
            timestamp = nowA\<rparr>]
   \<and> length (filter (\<lambda>m. \<not> isFinal m \<and> role m = r)
        (renderedMessages (run evs initReconciler) userArr agentArr nowU nowA)) \<le> 1"
proof -
  let ?f = "\<lparr>seg_id = A, seg_text = ''foo'', final = False\<rparr>"
  let ?s = "\<lparr>seg_id = A, seg_text = ''foobar'', final = False\<rparr>"
  have n1: "\<not> final seg \<longrightarrow> processUserSegment now seg st = st"
    and n2: "\<not> final seg \<longrightarrow> processAgentSegment now seg st = st"
    by (simp_all add: processUserSegment_nonfinal processAgentSegment_nonfinal)
  have n3: "list_all (\<lambda>s. \<not> final s) segs \<longrightarrow>
        userEffect clock (Some segs) st = st \<and> agentEffect clock (Some segs) st = st"
    by (simp add: userEffect_nonfinal agentEffect_nonfinal)
  have e1: "userEffect c (Some [?f]) initReconciler = initReconciler" for c
    by (rule userEffect_nonfinal) simp
  have e2: "userEffect c (Some [?f, ?s]) initReconciler = initReconciler" for c
    by (rule userEffect_nonfinal) simp
  have e3: "userEffect c (Some [?s]) initReconciler = initReconciler" for c
    by (rule userEffect_nonfinal) simp
  have r1: "run [UserTranscriptions c1 (Some [?f]), UserTranscriptions c2 (Some [?f, ?s])]
        initReconciler = initReconciler"
    by (simp add: run_def e1 e2)
  have r2: "run [UserTranscriptions c1 (Some [?f]), UserTranscriptions c2 (Some [?s])]
        initReconciler = initReconciler"
    by (simp add: run_def e1 e3)
  have t1: "renderedMessages initReconciler (Some [?f, ?s]) None nowU nowA
       = [\<lparr>msg_id = ''user-interim'', role = User, msg_text = ''foobar'', isFinal = False,
            timestamp = nowU\<rparr>]"
    using interim_only_transcript [of "[?f]" A nowU nowA] by simp
  have t2: "renderedMessages initReconciler (Some [?s]) None nowU nowA
       = [\<lparr>msg_id = ''user-interim'', role = User, msg_text = ''foobar'', isFinal = False,
            timestamp = nowU\<rparr>]"
    using interim_only_transcript [of "[]" A nowU nowA] by simp
  have fin: "\<forall>m \<in> set (messages (run evs initReconciler)). isFinal m"
    by (rule run_all_final) (simp add: initReconciler_def)
  have foo: "currentUserInterim (Some (pre @ [?f])) = Some ''foo''"
    by (simp add: currentUserInterim_def trim_def truthy_def isWhiteSpace_def)
  have u: "currentUserInterim (Some (mid @ [?s])) = Some ''foobar''"
    by (simp add: currentUserInterim_def trim_def truthy_def isWhiteSpace_def)
  have a: "currentAgentInterim (Some (mid @ [?s])) = Some ''foobar''"
    by (simp add: currentAgentInterim_def trim_def truthy_def isWhiteSpace_def)
  have fu: "filter (\<lambda>m. \<not> isFinal m \<and> role m = User)
        (renderedMessages (run evs initReconciler) (Some (mid @ [?s])) agentArr nowU nowA)
       = [\<lparr>msg_id = ''user-interim'', role = User, msg_text = ''foobar'', isFinal = False,
            timestamp = nowU\<rparr>]"
    unfolding renderedMessages_def u by (simp add: nonfinal_user_entries [OF fin] truthy_def)
  have fa: "filter (\<lambda>m. \<not> isFinal m \<and> role m = Assistant)
        (renderedMessages (run evs initReconciler) userArr (Some (mid @ [?s])) nowU nowA)
       = [\<lparr>msg_id = ''agent-interim'', role = Assistant, msg_text = ''foobar'', isFinal = False,
            timestamp = nowA\<rparr>]"
    unfolding renderedMessages_def a by (simp add: nonfinal_agent_entries [OF fin] truthy_def)
  have le: "length (filter (\<lambda>m. \<not> isFinal m \<and> role m = r)
        (renderedMessages (run evs initReconciler) userArr agentArr nowU nowA)) \<le> 1"
    unfolding renderedMessages_def
    by (cases r) (simp_all add: nonfinal_user_entries [OF fin] nonfinal_agent_entries [OF fin])
  from n1 n2 n3 r1 r2 t1 t2 foo u a fu fa le show ?thesis by blast
qed

theorem interim_replacement_witness:
  "processUserSegment 5 \<lparr>seg_id = ''A'', seg_text = ''foo'', final = False\<rparr>
      \<lparr>messages = [], processedSegments = {}\<rparr>
     = \<lparr>messages = [], processedSegments = {}\<rparr>
   \<and> processAgentSegment 5 \<lparr>seg_id = ''A'', seg_text = ''foo'', final = False\<rparr>
      \<lparr>messages = [], processedSegments = {}\<rparr>
     = \<lparr>messages = [], processedSegments = {}\<rparr>
   \<and> userEffect (\<lambda>i. 5) (Some [\<lparr>seg_id = ''A'', seg_text = ''foo'', final = False\<rparr>,
                             \<lparr>seg_id = ''A'', seg_text = ''foobar'', final = False\<rparr>])
      \<lparr>messages = [], processedSegments = {}\<rparr>
     = \<lparr>messages = [], processedSegments = {}\<rparr>"
  using interim_replacement [where seg = "\<lparr>seg_id = ''A'', seg_text = ''foo'', final = False\<rparr>"
      and now = 5 and st = "\<lparr>messages = [], processedSegments = {}\<rparr>"
      and segs = "[\<lparr>seg_id = ''A'', seg_text = ''foo'', final = False\<rparr>,
                   \<lparr>seg_id = ''A'', seg_text = ''foobar'', final = False\<rparr>]"
      and clock = "\<lambda>i. 5"]
  by simp



section \<open>Properties of the room handler and of the token request\<close>




text \<open>
  Claim C8.  In a disconnected App (no token, no URL, limit flag down), a \<open>toggleMic\<close>
  whose token request is answered with \<open>{error: "limit_reached"}\<close> only raises
  \<open>isLimitReached\<close> (and resets \<open>isConnecting\<close>): token and URL stay null and no room
  session is rendered.  While the flag is set every further \<open>toggleMic\<close> returns at once,
  without a token request, whatever the endpoint would answer, and no room session is
  rendered.  The usage endpoint raises the same flag through \<open>handleUsageIncrement\<close>,
  which also clears token and URL.
\<close>

theorem limit_reached_blocks:
  assumes "liveKitToken a = None" and "liveKitUrl a = None" and "\<not> isLimitReached a"
    and "data_error d = Some ''limit_reached''"
  shows "toggleMic (Json d) a = a\<lparr>isLimitReached := True, isConnecting_App := False\<rparr>
     \<and> liveKitToken (toggleMic (Json d) a) = None
     \<and> liveKitUrl (toggleMic (Json d) a) = None
     \<and> \<not> roomSessionRendered (toggleMic (Json d) a)
     \<and> isLimitReached (toggleMic (Json d) a)
     \<and> toggleMic_begin (toggleMic (Json d) a) = (toggleMic (Json d) a, False)
     \<and> toggleMic res (toggleMic (Json d) a) = toggleMic (Json d) a
     \<and> (isLimitReached a' \<longrightarrow> toggleMic res a' = a' \<and> \<not> roomSessionRendered a')
     \<and> handleUsageIncrement (Some True) a'
         = a'\<lparr>isLimitReached := True, liveKitToken := None, liveKitUrl := None\<rparr>"
  using assms
  by (simp add: toggleMic_def toggleMic_begin_def toggleMic_resume_def roomSessionRendered_def
        isLiveKitConnected_def handleUsageIncrement_def)

theorem limit_reached_blocks_witness:
  "toggleMic (Json \<lparr>data_error = Some ''limit_reached'', data_url = None, data_token = None,
                     data_room = None\<rparr>)
      \<lparr>state_App = IDLE, isMicActive = False, isLimitReached = False, liveKitToken = None,
       liveKitUrl = None, isConnecting_App = False\<rparr>
     = \<lparr>state_App = IDLE, isMicActive = False, isLimitReached = True, liveKitToken = None,
        liveKitUrl = None, isConnecting_App = False\<rparr>
   \<and> toggleMic (Json \<lparr>data_error = None, data_url = Some ''wss://x'', data_token = Some ''t'',
                     data_room = Some ''voice-assistant''\<rparr>)
      \<lparr>state_App = IDLE, isMicActive = False, isLimitReached = True, liveKitToken = None,
       liveKitUrl = None, isConnecting_App = False\<rparr>
     = \<lparr>state_App = IDLE, isMicActive = False, isLimitReached = True, liveKitToken = None,
        liveKitUrl = None, isConnecting_App = False\<rparr>"
  using limit_reached_blocks [of
      "\<lparr>state_App = IDLE, isMicActive = False, isLimitReached = False, liveKitToken = None,
       liveKitUrl = None, isConnecting_App = False\<rparr>"
      "\<lparr>data_error = Some ''limit_reached'', data_url = None, data_token = None,
                     data_room = None\<rparr>"
      "Json \<lparr>data_error = None, data_url = Some ''wss://x'', data_token = Some ''t'',
                     data_room = Some ''voice-assistant''\<rparr>"
      "\<lparr>state_App = IDLE, isMicActive = False, isLimitReached = True, liveKitToken = None,
       liveKitUrl = None, isConnecting_App = False\<rparr>"]
  by simp

section \<open>Properties of the session manager\<close>

lemma phaseRooms_single: "\<exists>r. phaseRooms ph \<subseteq> {r}"
  by (cases ph) simp_all

lemma oneSession_single: "live h \<subseteq> phaseRooms ph \<Longrightarrow> \<exists>r. live h \<subseteq> {r}"
  using phaseRooms_single [of ph] by (meson subset_trans)

lemma oneSession_card: "oneSession h \<Longrightarrow> card (live h) \<le> 1"
proof -
  assume "oneSession h"
  then obtain r where "live h \<subseteq> {r}"
    unfolding oneSession_def using oneSession_single by blast
  then have "card (live h) \<le> card {r}" by (intro card_mono) simp_all
  then show ?thesis by simp
qed

lemma oneSession_init: "oneSession initLiveKitHook"
  by (simp add: oneSession_def initLiveKitHook_def)

lemma oneSession_CallConnect:
  "pending h = [] \<Longrightarrow> live h = {} \<Longrightarrow> oneSession (hookStep CallConnect h)"
  by (simp add: oneSession_def)

lemma oneSession_connectFailed: "oneSession h \<Longrightarrow> oneSession (connectFailed k msg h)"
proof -
  assume h: "oneSession h"
  show ?thesis
  proof (cases "pending h")
    case Nil
    with h show ?thesis by (simp add: oneSession_def connectFailed_def)
  next
    case (Cons p ps)
    with h obtain ka ph where p: "pending h = [(ka, ph)]" and l: "live h \<subseteq> phaseRooms ph"
      by (auto simp: oneSession_def)
    show ?thesis
    proof (cases "ka = k")
      case True
      with p oneSession_single [OF l] show ?thesis
        by (simp add: oneSession_def connectFailed_def)
    next
      case False
      with p l show ?thesis
        by (simp add: oneSession_def connectFailed_def)
    qed
  qed
qed

lemma oneSession_FetchDone: "oneSession h \<Longrightarrow> oneSession (hookStep (FetchDone k res) h)"
  using oneSession_connectFailed [of h k]
  by (auto simp: oneSession_def split: option.splits ConnectPhase.splits FetchResult.splits if_splits)

lemma oneSession_TransportConnected:
  "oneSession h \<Longrightarrow> oneSession (hookStep (TransportConnected k) h)"
  by (auto simp: oneSession_def split: option.splits ConnectPhase.splits if_splits)

lemma oneSession_ConnectDone:
  "oneSession h \<Longrightarrow> oneSession (hookStep (ConnectDone k res) h)"
  using oneSession_connectFailed [of h k]
  by (auto simp: oneSession_def setRoom_def split: option.splits ConnectPhase.splits if_splits)

lemma oneSession_MicDone:
  "oneSession h \<Longrightarrow> oneSession (hookStep (MicDone k res) h)"
  using oneSession_connectFailed [of h k]
  by (auto simp: oneSession_def split: option.splits ConnectPhase.splits if_splits)

lemma oneSession_RoomDisconnected:
  "oneSession h \<Longrightarrow> oneSession (hookStep (RoomDisconnected r) h)"
  by (auto simp: oneSession_def)

lemma oneSession_CallDisconnect:
  "oneSession h \<Longrightarrow> oneSession (hookStep CallDisconnect h)"
  by (auto simp: oneSession_def setRoom_def Let_def split: option.splits)

lemma oneSession_CallSetTtsVoice:
  "oneSession h \<Longrightarrow> oneSession (hookStep (CallSetTtsVoice v) h)"
  by (auto simp: oneSession_def split: option.splits)

lemma oneSession_step:
  "oneSession h \<Longrightarrow> (if ev = CallConnect then pending h = [] \<and> live h = {} else True) \<Longrightarrow>
   oneSession (hookStep ev h)"
  by (cases ev)
     (simp_all only: oneSession_CallConnect oneSession_FetchDone oneSession_TransportConnected
        oneSession_ConnectDone oneSession_MicDone oneSession_RoomDisconnected
        oneSession_CallDisconnect oneSession_CallSetTtsVoice if_True)

lemma oneSession_run:
  "oneSession h \<Longrightarrow> connectOnlyWhenIdle evs h \<Longrightarrow> oneSession (runHook evs h)"
  unfolding runHook_def
  by (induction evs arbitrary: h) (simp_all add: oneSession_step del: hookStep.simps)

lemma connected_once:
  "connectedOnce
     = \<lparr>room = Some 0,
        state = \<lparr>isConnected = True, isConnecting = False, isMicEnabled = True, error = None,
                 roomName = Some ''voice-assistant''\<rparr>,
        pending = [], nextCall = 1, created = 1, live = {0},
        setAttributesCalls_hook = [], consoleLog = []\<rparr>"
  by (simp add: connectedOnce_def connectOnceEvents_def tokenOk_def runHook_def
        initLiveKitHook_def setRoom_def truthy_def)

text \<open>
  Claim C6.  \<open>setTtsVoice\<close> of this hook tests \<open>room\<close>, not the connection state.  After
  a successful \<open>connect()\<close> and a \<open>RoomEvent.Disconnected\<close> from the transport, \<open>room\<close>
  still holds the Room object while \<open>isConnected\<close> is false: \<open>setTtsVoice("luna")\<close> then
  calls \<open>setAttributes\<close> on that room, and the line "Cannot set TTS voice - not connected"
  is not logged.
\<close>

theorem setTtsVoice_after_remote_disconnect:
  "runHook [RoomDisconnected 0, CallSetTtsVoice ''luna'']
     connectedOnce
     = \<lparr>room = Some 0,
        state = \<lparr>isConnected = False, isConnecting = False, isMicEnabled = False, error = None,
                 roomName = None\<rparr>,
        pending = [], nextCall = 1, created = 1, live = {},
        setAttributesCalls_hook = [(0, [(''tts_voice'', ''luna'')])], consoleLog = []\<rparr>"
  unfolding connected_once by (simp add: runHook_def)

text \<open>
  Claim C2, as stated, fails.  After one complete \<open>connect()\<close> the state is connected
  and room 0 is live.  A second \<open>connect()\<close> changes the state (it is no no-op) and
  leaves room 0 live (it tears nothing down); once its token arrives and its room
  connects, rooms 0 and 1 are live together.
\<close>

theorem second_connect_counterexample:
  "isConnected (state connectedOnce)
   \<and> live connectedOnce = {0}
   \<and> hookStep CallConnect connectedOnce \<noteq> connectedOnce
   \<and> live (hookStep CallConnect connectedOnce) = {0}
   \<and> live (runHook [CallConnect, FetchDone 1 tokenOk, TransportConnected 1]
          connectedOnce) = {0, 1}
   \<and> card (live (runHook [CallConnect, FetchDone 1 tokenOk, TransportConnected 1]
          connectedOnce)) = 2"
  unfolding connected_once by (auto simp: runHook_def tokenOk_def truthy_def)

text \<open>
  Claim C2, amended.  \<open>connect()\<close> tests nothing: in every state it marks the state
  connecting and starts a further invocation, leaving the stored room and the live
  sessions as they are.  When the \<open>newRoom.connect\<close> of an invocation resolves, its room
  becomes the stored one and a different room stored before is no longer live.  If the
  caller invokes \<open>connect()\<close> only while no invocation is in flight and no session is
  live, at most one session is live at every point.
\<close>

theorem connect_has_no_guard:
  "live (hookStep CallConnect h) = live h
   \<and> room (hookStep CallConnect h) = room h
   \<and> pending (hookStep CallConnect h) = pending h @ [(nextCall h, AwaitFetch)]
   \<and> isConnecting (state (hookStep CallConnect h))
   \<and> (map_of (pending h) k = Some (AwaitConnect r rn) \<longrightarrow>
        room (hookStep (ConnectDone k None) h) = Some r
        \<and> (\<forall>r0. room h = Some r0 \<and> r0 \<noteq> r \<longrightarrow>
               r0 \<notin> live (hookStep (ConnectDone k None) h)))
   \<and> (connectOnlyWhenIdle evs initLiveKitHook \<longrightarrow>
        card (live (runHook evs initLiveKitHook)) \<le> 1)"
proof -
  have c: "card (live (runHook evs initLiveKitHook)) \<le> 1"
    if "connectOnlyWhenIdle evs initLiveKitHook"
    using oneSession_run [OF oneSession_init that] by (rule oneSession_card)
  have a: "live (hookStep CallConnect h) = live h"
    "room (hookStep CallConnect h) = room h"
    "pending (hookStep CallConnect h) = pending h @ [(nextCall h, AwaitFetch)]"
    "isConnecting (state (hookStep CallConnect h))"
    by simp_all
  have b: "room (hookStep (ConnectDone k None) h) = Some r
        \<and> (\<forall>r0. room h = Some r0 \<and> r0 \<noteq> r \<longrightarrow>
               r0 \<notin> live (hookStep (ConnectDone k None) h))"
    if "map_of (pending h) k = Some (AwaitConnect r rn)"
    using that by (cases "room h") (simp_all add: setRoom_def)
  from a b c show ?thesis by blast
qed

lemma second_connect_state:
  "runHook [CallConnect, FetchDone 1 tokenOk, TransportConnected 1] connectedOnce
     = \<lparr>room = Some 0,
        state = \<lparr>isConnected = True, isConnecting = False, isMicEnabled = True, error = None,
                 roomName = Some ''voice-assistant''\<rparr>,
        pending = [(1, AwaitConnect 1 (Some ''voice-assistant''))], nextCall = 2, created = 2,
        live = {0, 1},
        setAttributesCalls_hook = [], consoleLog = []\<rparr>"
  unfolding connected_once by (auto simp: runHook_def tokenOk_def truthy_def)

lemma connectOnlyWhenIdle_example:
  "connectOnlyWhenIdle (connectOnceEvents @ [CallDisconnect, CallConnect]) initLiveKitHook"
  by (simp add: connectOnceEvents_def tokenOk_def initLiveKitHook_def setRoom_def truthy_def)

theorem connect_has_no_guard_witness:
  "map_of (pending (runHook [CallConnect, FetchDone 1 tokenOk, TransportConnected 1]
           connectedOnce)) 1
     = Some (AwaitConnect 1 (Some ''voice-assistant''))
   \<and> room (hookStep (ConnectDone 1 None)
        (runHook [CallConnect, FetchDone 1 tokenOk, TransportConnected 1]
           connectedOnce)) = Some 1
   \<and> 0 \<notin> live (hookStep (ConnectDone 1 None)
        (runHook [CallConnect, FetchDone 1 tokenOk, TransportConnected 1]
           connectedOnce))
   \<and> connectOnlyWhenIdle (connectOnceEvents @ [CallDisconnect, CallConnect]) initLiveKitHook
   \<and> card (live (runHook (connectOnceEvents @ [CallDisconnect, CallConnect]) initLiveKitHook)) \<le> 1"
proof -
  define h where "h = runHook [CallConnect, FetchDone 1 tokenOk, TransportConnected 1]
           connectedOnce"
  define evs where "evs = connectOnceEvents @ [CallDisconnect, CallConnect]"
  have p: "map_of (pending h) 1 = Some (AwaitConnect 1 (Some ''voice-assistant''))"
    and r: "room h = Some 0"
    unfolding h_def second_connect_state by simp_all
  have idle: "connectOnlyWhenIdle evs initLiveKitHook"
    unfolding evs_def by (rule connectOnlyWhenIdle_example)
  note T = connect_has_no_guard [of h 1 1 "Some ''voice-assistant''" evs]
  from T p have b1: "room (hookStep (ConnectDone 1 None) h) = Some 1"
    and b2: "\<forall>r0. room h = Some r0 \<and> r0 \<noteq> 1 \<longrightarrow> r0 \<notin> live (hookStep (ConnectDone 1 None) h)"
    by blast+
  from b2 r have b3: "0 \<notin> live (hookStep (ConnectDone 1 None) h)"
    by (metis zero_neq_one)
  from T idle have c: "card (live (runHook evs initLiveKitHook)) \<le> 1"
    by blast
  from p b1 b3 idle c show ?thesis
    unfolding h_def evs_def by blast
qed

section \<open>Properties of the audio capture\<close>

text \<open>
  Failures of \<open>startRecording\<close> before a stream is captured.  When \<open>window.vad\<close> is
  missing, the call only sets the error to "VAD library not loaded. Please check CDN
  script in index.html"; when \<open>getUserMedia\<close> rejects, it only sets the error to the
  message of the rejection (and has made that one call).
\<close>

lemma startRecording_fails_before_capture:
  "(\<not> vadLoaded env \<longrightarrow>
      startRecording env r =
        r\<lparr>error_Recorder := Some ''VAD library not loaded. Please check CDN script in index.html''\<rparr>)
   \<and> (vadLoaded env \<and> getUserMedia env = Inl msg \<longrightarrow>
      startRecording env r = r\<lparr>error_Recorder := Some msg, calls := calls r @ [GetUserMedia]\<rparr>)"
  by (simp add: startRecording_def Let_def)

text \<open>
  A failure of \<open>startRecording\<close> after the stream is captured: when \<open>MicVAD.new\<close>
  rejects, the \<open>catch\<close> block only sets the error; the stream assigned to \<open>streamRef\<close>
  stays there, its tracks live, and no detector is attached.
\<close>

lemma startRecording_fails_after_capture:
  "vadLoaded env \<Longrightarrow> getUserMedia env = Inr stream \<Longrightarrow> stream \<noteq> [] \<Longrightarrow>
   micVADNew env = Inl msg \<Longrightarrow>
   startRecording env r =
     r\<lparr>error_Recorder := Some msg, streamRef := Some stream,
       liveTracks := liveTracks r \<union> set stream,
       calls := calls r @ [GetUserMedia, MicVADNew]\<rparr>"
  by (simp add: startRecording_def Let_def)

lemma stopRecording_releases_stream:
  "vadRef r = None \<Longrightarrow> streamRef r = Some stream \<Longrightarrow>
   fst (stopRecording senv r) = None
   \<and> streamRef (snd (stopRecording senv r)) = None
   \<and> liveTracks (snd (stopRecording senv r)) = liveTracks r - set stream"
  by (simp add: stopRecording_def haltDetector_def stopTracks_def closeContext_def clearFlags_def
        split: option.splits)

text \<open>
  Claim C3, as stated, fails.  With the microphone granted and the detector unavailable
  when it is built (\<open>MicVAD.new\<close> rejects), \<open>startRecording\<close> on a fresh recorder sets
  the error and does not start recording, but leaves the captured stream in \<open>streamRef\<close>
  with track 0 live and \<open>vadRef\<close> null: an open stream with no detector attached.
\<close>

theorem startRecording_detector_unavailable:
  "startRecording detectorUnavailable initRecorder
     = \<lparr>isRecording = False, error_Recorder = Some ''Failed to load VAD model'',
        analyser = None, isSpeechDetected = False,
        vadRef = None, streamRef = Some [0], audioContextRef = None,
        liveTracks = {0}, listening = {}, openContexts = {},
        calls = [GetUserMedia, MicVADNew]\<rparr>"
  by (simp add: startRecording_def detectorUnavailable_def initRecorder_def Let_def)

text \<open>
  Claim C3, amended.  When \<open>window.vad\<close> is missing or \<open>getUserMedia\<close> rejects,
  \<open>startRecording\<close> sets the error (the fixed text, or the message of the rejection) and
  changes nothing else but the record of the one call made: no stream is captured and
  recording does not start.  When \<open>MicVAD.new\<close> rejects after the stream is captured, it
  sets the error and recording does not start either, but nothing is released: the stream
  stays in \<open>streamRef\<close> with its tracks live and no detector is attached.  A
  \<open>stopRecording\<close> on a recorder that held no detector then stops those tracks and clears
  \<open>streamRef\<close>.
\<close>

theorem startRecording_failure_states:
  "(\<not> vadLoaded env \<longrightarrow>
      startRecording env r =
        r\<lparr>error_Recorder := Some ''VAD library not loaded. Please check CDN script in index.html''\<rparr>)
   \<and> (vadLoaded env \<and> getUserMedia env = Inl msg \<longrightarrow>
      startRecording env r = r\<lparr>error_Recorder := Some msg, calls := calls r @ [GetUserMedia]\<rparr>)
   \<and> (vadLoaded env \<and> getUserMedia env = Inr stream \<and> stream \<noteq> [] \<and> micVADNew env = Inl msg \<longrightarrow>
      startRecording env r =
        r\<lparr>error_Recorder := Some msg, streamRef := Some stream,
          liveTracks := liveTracks r \<union> set stream,
          calls := calls r @ [GetUserMedia, MicVADNew]\<rparr>
      \<and> isRecording (startRecording env r) = isRecording r
      \<and> vadRef (startRecording env r) = vadRef r
      \<and> set stream \<subseteq> liveTracks (startRecording env r))
   \<and> (vadLoaded env \<and> getUserMedia env = Inr stream \<and> stream \<noteq> [] \<and> micVADNew env = Inl msg
        \<and> vadRef r = None \<longrightarrow>
      fst (stopRecording senv (startRecording env r)) = None
      \<and> streamRef (snd (stopRecording senv (startRecording env r))) = None
      \<and> liveTracks (snd (stopRecording senv (startRecording env r))) = liveTracks r - set stream)"
proof -
  have a: "startRecording env r =
        r\<lparr>error_Recorder := Some msg, streamRef := Some stream,
          liveTracks := liveTracks r \<union> set stream,
          calls := calls r @ [GetUserMedia, MicVADNew]\<rparr>"
    if "vadLoaded env" "getUserMedia env = Inr stream" "stream \<noteq> []" "micVADNew env = Inl msg"
    using that by (rule startRecording_fails_after_capture)
  have b: "isRecording (startRecording env r) = isRecording r
      \<and> vadRef (startRecording env r) = vadRef r
      \<and> set stream \<subseteq> liveTracks (startRecording env r)"
    if "vadLoaded env" "getUserMedia env = Inr stream" "stream \<noteq> []" "micVADNew env = Inl msg"
    unfolding a [OF that] by simp
  have c: "fst (stopRecording senv (startRecording env r)) = None
      \<and> streamRef (snd (stopRecording senv (startRecording env r))) = None
      \<and> liveTracks (snd (stopRecording senv (startRecording env r))) = liveTracks r - set stream"
    if h: "vadLoaded env" "getUserMedia env = Inr stream" "stream \<noteq> []" "micVADNew env = Inl msg"
      and v: "vadRef r = None"
  proof -
    have "vadRef (startRecording env r) = None" and "streamRef (startRecording env r) = Some stream"
      and "liveTracks (startRecording env r) = liveTracks r \<union> set stream"
      unfolding a [OF h] using v by simp_all
    then show ?thesis
      using stopRecording_releases_stream [of "startRecording env r" stream senv] by auto
  qed
  from startRecording_fails_before_capture [of env r msg] a b c show ?thesis by blast
qed

theorem startRecording_failure_states_witness:
  "startRecording (detectorUnavailable\<lparr>vadLoaded := False\<rparr>) initRecorder
     = initRecorder\<lparr>error_Recorder :=
         Some ''VAD library not loaded. Please check CDN script in index.html''\<rparr>
   \<and> startRecording (detectorUnavailable\<lparr>getUserMedia := Inl ''Permission denied''\<rparr>) initRecorder
     = initRecorder\<lparr>error_Recorder := Some ''Permission denied'', calls := [GetUserMedia]\<rparr>
   \<and> \<not> isRecording (startRecording detectorUnavailable initRecorder)
   \<and> set [0] \<subseteq> liveTracks (startRecording detectorUnavailable initRecorder)
   \<and> liveTracks (snd (stopRecording \<lparr>pauseThrows = None, closeRejects = False\<rparr>
        (startRecording detectorUnavailable initRecorder))) = {}"
proof -
  define e1 where "e1 = detectorUnavailable\<lparr>vadLoaded := False\<rparr>"
  define e2 where "e2 = detectorUnavailable\<lparr>getUserMedia := Inl ''Permission denied''\<rparr>"
  define senv where "senv = \<lparr>pauseThrows = None, closeRejects = False\<rparr>"
  have h1: "\<not> vadLoaded e1"
    and h2: "vadLoaded e2 \<and> getUserMedia e2 = Inl ''Permission denied''"
    and h3: "vadLoaded detectorUnavailable \<and> getUserMedia detectorUnavailable = Inr [0]
        \<and> [0] \<noteq> ([] :: nat list)
        \<and> micVADNew detectorUnavailable = Inl ''Failed to load VAD model''"
    and h4: "vadRef initRecorder = None"
    and i0: "calls initRecorder = []" "\<not> isRecording initRecorder" "liveTracks initRecorder = {}"
    by (simp_all add: e1_def e2_def detectorUnavailable_def initRecorder_def)
  note T1 = startRecording_failure_states [where env = e1 and r = initRecorder]
  note T2 = startRecording_failure_states [where env = e2 and r = initRecorder
      and msg = "''Permission denied''"]
  note T3 = startRecording_failure_states [where env = detectorUnavailable and r = initRecorder
      and msg = "''Failed to load VAD model''" and stream = "[0]" and senv = senv]
  from T1 h1 have w1: "startRecording e1 initRecorder
     = initRecorder\<lparr>error_Recorder :=
         Some ''VAD library not loaded. Please check CDN script in index.html''\<rparr>"
    by blast
  from T2 h2 have w2: "startRecording e2 initRecorder
     = initRecorder\<lparr>error_Recorder := Some ''Permission denied'',
         calls := calls initRecorder @ [GetUserMedia]\<rparr>"
    by blast
  from T3 h3 have w3: "isRecording (startRecording detectorUnavailable initRecorder)
        = isRecording initRecorder"
    and w4: "set [0] \<subseteq> liveTracks (startRecording detectorUnavailable initRecorder)"
    by blast+
  from T3 h3 h4 have w5: "liveTracks (snd (stopRecording senv
        (startRecording detectorUnavailable initRecorder))) = liveTracks initRecorder - set [0]"
    by blast
  from w1 w2 w3 w4 w5 show ?thesis
    unfolding i0 e1_def e2_def senv_def using i0 by simp
qed

text \<open>
  Claim C4, as stated, fails.  There is no \<open>try\<close> around the steps: with a recorder that
  is running (detector 0, stream with tracks 0 and 1, context 0), a \<open>pause()\<close> that
  throws ends \<open>stopRecording\<close> at once; both tracks are still live, \<open>streamRef\<close> still
  holds the stream, the context is open and \<open>isRecording\<close> is still true.
\<close>

theorem stopRecording_pause_throws_counterexample:
  "fst (stopRecording \<lparr>pauseThrows = Some ''pause failed'', closeRejects = False\<rparr>
          recording)
     = Some ''pause failed''
   \<and> snd (stopRecording \<lparr>pauseThrows = Some ''pause failed'', closeRejects = False\<rparr>
          recording)
     = \<lparr>isRecording = True, error_Recorder = None, analyser = Some 0, isSpeechDetected = False,
        vadRef = Some 0, streamRef = Some [0, 1], audioContextRef = Some 0,
        liveTracks = {0, 1}, listening = {0}, openContexts = {0},
        calls = [GetUserMedia, MicVADNew, VadStart 0, NewAudioContext, VadPause 0]\<rparr>"
  by (auto simp: stopRecording_def haltDetector_def recording_def captureOk_def
        startRecording_def initRecorder_def Let_def)

text \<open>
  Claim C4, amended.  When \<open>pause()\<close> returns normally, \<open>stopRecording\<close> makes its calls
  in the stated order (pause the detector, stop each track of the stream in
  \<open>streamRef\<close>, close the context), whether or not the promise of \<open>close()\<close> rejects;
  afterwards the three refs are null, \<open>isRecording\<close>, \<open>isSpeechDetected\<close> and \<open>analyser\<close>
  are cleared, no track of that stream is live and the detector does not listen.  The
  live tracks are those that were live before, less the tracks of that stream: none is
  left when that stream was the only one open.
\<close>

theorem stopRecording_teardown:
  "pauseThrows env = None \<longrightarrow>
     fst (stopRecording env r) = None
     \<and> calls (snd (stopRecording env r)) =
         calls r
         @ (case vadRef r of None \<Rightarrow> [] | Some vad \<Rightarrow> [VadPause vad])
         @ (case streamRef r of None \<Rightarrow> [] | Some stream \<Rightarrow> map TrackStop stream)
         @ (case audioContextRef r of None \<Rightarrow> [] | Some ctx \<Rightarrow> [ContextClose ctx])
     \<and> vadRef (snd (stopRecording env r)) = None
     \<and> streamRef (snd (stopRecording env r)) = None
     \<and> audioContextRef (snd (stopRecording env r)) = None
     \<and> \<not> isRecording (snd (stopRecording env r))
     \<and> \<not> isSpeechDetected (snd (stopRecording env r))
     \<and> analyser (snd (stopRecording env r)) = None
     \<and> (\<forall>stream. streamRef r = Some stream \<longrightarrow>
           set stream \<inter> liveTracks (snd (stopRecording env r)) = {})
     \<and> (\<forall>vad. vadRef r = Some vad \<longrightarrow> vad \<notin> listening (snd (stopRecording env r)))
     \<and> liveTracks (snd (stopRecording env r)) =
         liveTracks r - (case streamRef r of None \<Rightarrow> {} | Some stream \<Rightarrow> set stream)"
  by (auto simp: stopRecording_def haltDetector_def stopTracks_def closeContext_def clearFlags_def
        Let_def split: option.splits)

theorem stopRecording_teardown_witness:
  "pauseThrows \<lparr>pauseThrows = None, closeRejects = True\<rparr> = None
   \<and> snd (stopRecording \<lparr>pauseThrows = None, closeRejects = True\<rparr>
          recording)
     = \<lparr>isRecording = False, error_Recorder = None, analyser = None, isSpeechDetected = False,
        vadRef = None, streamRef = None, audioContextRef = None,
        liveTracks = {}, listening = {}, openContexts = {0},
        calls = [GetUserMedia, MicVADNew, VadStart 0, NewAudioContext, VadPause 0, TrackStop 0,
                 TrackStop 1, ContextClose 0]\<rparr>
   \<and> set [0, 1] \<inter> liveTracks (snd (stopRecording \<lparr>pauseThrows = None, closeRejects = True\<rparr>
          recording)) = {}"
  using stopRecording_teardown [of "\<lparr>pauseThrows = None, closeRejects = True\<rparr>"
      recording]
  by (simp add: stopRecording_def haltDetector_def stopTracks_def closeContext_def clearFlags_def
        recording_def captureOk_def startRecording_def initRecorder_def Let_def)

end
